theory Spec2Isabelle
  imports Main "HOL-Library.Sublist"
begin

section \<open>The socket of \<^verbatim>\<open>src/common/utxobased/network/Socket.ts\<close>\<close>

text \<open>
  \<^verbatim>\<open>makeSocket(uri, config)\<close> returns an object whose methods and transport callbacks
  share the variables of one closure. The closure is the record \<open>Socket\<close> below; each
  function of the source is a function from the closure before the call to the closure
  after it. A handler runs to completion at one reading \<open>now\<close> of \<^verbatim>\<open>Date.now()\<close>.
  What a handler does to the outside (the transport, the Deferred objects, the emitter,
  the queue of wake-ups, the error log) is appended to the field \<open>trace\<close>.
  Informational logging (\<^verbatim>\<open>log\<close>, \<^verbatim>\<open>log.warn\<close>, \<^verbatim>\<open>console.log\<close>) is left out.
\<close>

subsection \<open>JSON values, thrown errors\<close>

text \<open>
  A parsed JSON text. \<open>JNum n\<close> is a number whose value is the integer \<open>n\<close>.
  A JavaScript value that may be \<^verbatim>\<open>undefined\<close> is a \<open>json option\<close>, \<open>None\<close> for
  \<^verbatim>\<open>undefined\<close>. Objects are their own properties, in order; the properties every
  object inherits (\<^verbatim>\<open>constructor\<close>, \<^verbatim>\<open>toString\<close> and the like) are not modelled, so
  a lookup of such a name in an object used as a dictionary finds nothing.
\<close>

datatype json =
    JNull
  | JBool bool
  | JNum int
  | JStr string
  | JArr "json list"
  | JObj "(string \<times> json) list"

type_synonym js_value = "json option"

datatype js_error = Error string | TypeError string | SyntaxError string

fun error_message :: "js_error \<Rightarrow> string" where
  "error_message (Error m) = m"
| "error_message (TypeError m) = m"
| "error_message (SyntaxError m) = m"

text \<open>\<^verbatim>\<open>v == null\<close>: true of \<^verbatim>\<open>undefined\<close> and of \<^verbatim>\<open>null\<close>.\<close>

definition is_nullish :: "js_value \<Rightarrow> bool" where
  "is_nullish v = (v = None \<or> v = Some JNull)"

text \<open>\<^verbatim>\<open>j.k\<close>: reading a property of \<^verbatim>\<open>null\<close> throws, of a primitive or an array
  gives \<^verbatim>\<open>undefined\<close> (for the keys the source reads).\<close>

fun get_prop :: "json \<Rightarrow> string \<Rightarrow> js_error + js_value" where
  "get_prop JNull k = Inl (TypeError ''Cannot read properties of null'')"
| "get_prop (JObj kvs) k = Inr (map_of kvs k)"
| "get_prop (JBool b) k = Inr None"
| "get_prop (JNum n) k = Inr None"
| "get_prop (JStr s) k = Inr None"
| "get_prop (JArr xs) k = Inr None"

text \<open>The same read where the object is known not to be \<^verbatim>\<open>null\<close>.\<close>

definition prop_of :: "json \<Rightarrow> string \<Rightarrow> js_value" where
  "prop_of j k = (case get_prop j k of Inl e \<Rightarrow> None | Inr v \<Rightarrow> v)"

text \<open>\<^verbatim>\<open>v?.k\<close>\<close>

definition opt_prop :: "js_value \<Rightarrow> string \<Rightarrow> js_value" where
  "opt_prop v k = (if is_nullish v then None else (case v of None \<Rightarrow> None | Some j \<Rightarrow> prop_of j k))"

text \<open>Decimal digits of a natural number: \<^verbatim>\<open>(n).toString()\<close> of a counter.\<close>

function show_nat :: "nat \<Rightarrow> string" where
  "show_nat n =
     (if n < 10 then [char_of (48 + n)]
      else show_nat (n div 10) @ [char_of (48 + n mod 10)])"
  by pat_completeness auto
termination
  by (relation "measure (\<lambda>n. n)") auto

declare show_nat.simps [simp del]

text \<open>
  \<^verbatim>\<open>j.toString()\<close> of a parsed JSON value: a string is itself, an array joins its
  elements with commas (\<^verbatim>\<open>null\<close> elements are empty), an object is
  \<^verbatim>\<open>[object Object]\<close> unless it has a property \<^verbatim>\<open>toString\<close> of its own, which JSON
  cannot make callable.
\<close>

fun js_toString :: "json \<Rightarrow> js_error + string"
and js_join :: "json list \<Rightarrow> js_error + string" where
  "js_toString JNull = Inl (TypeError ''Cannot read properties of null'')"
| "js_toString (JBool b) = Inr (if b then ''true'' else ''false'')"
| "js_toString (JNum n) =
     Inr (if n < 0 then CHR ''-'' # show_nat (nat (- n)) else show_nat (nat n))"
| "js_toString (JStr s) = Inr s"
| "js_toString (JArr xs) = js_join xs"
| "js_toString (JObj kvs) =
     (if ''toString'' \<in> set (map fst kvs) then Inl (TypeError ''toString is not a function'')
      else Inr ''[object Object]'')"
| "js_join [] = Inr []"
| "js_join (x # xs) =
     (case (if x = JNull then Inr [] else js_toString x) of
        Inl e \<Rightarrow> Inl e
      | Inr a \<Rightarrow>
          (if xs = [] then Inr a
           else (case js_join xs of Inl e \<Rightarrow> Inl e | Inr b \<Rightarrow> Inr (a @ '','' @ b))))"

text \<open>\<^verbatim>\<open>new Error(v)\<close> thrown at once: the error, or the TypeError of converting
  \<open>v\<close> to a string.\<close>

definition new_Error :: "js_value \<Rightarrow> js_error" where
  "new_Error v =
     (case v of
        None \<Rightarrow> Error []
      | Some j \<Rightarrow>
          (if j = JNull then Error ''null''
           else (case js_toString j of Inl e \<Rightarrow> e | Inr s \<Rightarrow> Error s)))"

text \<open>An inbound text frame with what \<^verbatim>\<open>JSON.parse\<close> makes of it.\<close>

record frame =
  messageJson :: string
  parsed :: "js_error + json"

subsection \<open>Tasks, subscriptions, Deferred objects\<close>

text \<open>
  Modelled from the spec: the class \<^verbatim>\<open>Deferred\<close> (\<^verbatim>\<open>./Deferred\<close>, not among the
  sources), "a pending result that can be resolved or rejected exactly once from
  elsewhere". Deferred objects live in a heap, tasks hold their address. The first
  \<^verbatim>\<open>resolve\<close> or \<^verbatim>\<open>reject\<close> settles the object, later ones change nothing. The
  source guards \<^verbatim>\<open>reject\<close> with try and catch, so a call may throw: \<open>fault\<close> is the
  error a call on this object throws, if any.
\<close>

datatype settlement = Unsettled | Resolved js_value | Rejected "js_error option"

record Deferred =
  settled :: settlement
  fault :: "js_error option"

definition settle :: "nat \<Rightarrow> settlement \<Rightarrow> (nat \<Rightarrow> Deferred) \<Rightarrow> js_error + (nat \<Rightarrow> Deferred)" where
  "settle d r h =
     (case fault (h d) of
        Some e \<Rightarrow> Inl e
      | None \<Rightarrow> Inr (if settled (h d) = Unsettled then h(d := (h d)\<lparr>settled := r\<rparr>) else h))"

record WsTask =
  "method" :: string
  params :: js_value
  deferred :: nat
  cleaner :: "(js_value \<Rightarrow> js_error + js_value) option"

record WsSubscription =
  "method" :: string
  params :: js_value
  cb :: "js_value \<Rightarrow> js_error option"
  subscribed :: bool
  cleaner :: "js_value \<Rightarrow> js_error + js_value"
  deferred :: nat

record WsMessage =
  task :: WsTask
  startTime :: int

text \<open>Modelled from the spec: the enumeration \<^verbatim>\<open>ReadyState\<close> of \<^verbatim>\<open>./types\<close> (not among
  the sources), the readiness state of the transport.\<close>

datatype ReadyState = CONNECTING | OPEN | CLOSING | CLOSED

datatype SocketEvent =
    CONNECTION_OPEN string
  | CONNECTION_CLOSE string js_error
  | CONNECTION_TIMER string int

text \<open>What a handler does to the outside, in the order it does it.\<close>

datatype event =
    Sent string string json
  | RejectCall nat "js_error option"
  | ResolveCall nat js_value
  | Callback string js_value
  | TransportCreate string
  | TransportDisconnect
  | Emit SocketEvent
  | PushUpdate string
  | RemoveIdFromQueue string
  | HealthCheck
  | OnQueueSpace string
  | LogError string

text \<open>
  \<^verbatim>\<open>makeSocket\<close>'s arguments: \<open>uri\<close> and the fields of \<^verbatim>\<open>SocketConfig\<close> the
  handlers read. \<open>emitter ev\<close> is the error \<^verbatim>\<open>emitter.emit\<close> throws on \<open>ev\<close>, if any.
\<close>

record SocketConfig =
  uri :: string
  walletId :: string
  queueSize :: "int option"
  timeout :: "int option"
  emitter :: "SocketEvent \<Rightarrow> js_error option"

text \<open>
  The closure. \<open>socket\<close> is the transport, known by its \<^verbatim>\<open>readyState\<close>; objects used
  as dictionaries are lists of their entries in insertion order, with distinct keys.
\<close>

record Socket =
  socket :: "ReadyState option"
  subscriptions :: "(string \<times> WsSubscription) list"
  pendingMessages :: "(string \<times> WsMessage) list"
  nextId :: nat
  lastKeepAlive :: int
  lastWakeUp :: int
  connected :: bool
  cancelConnect :: bool
  error :: "js_error option"
  timer :: "int option"
  heap :: "nat \<Rightarrow> Deferred"
  trace :: "event list"

definition TIMER_SLACK :: int where "TIMER_SLACK = 500"
definition KEEP_ALIVE_MS :: int where "KEEP_ALIVE_MS = 60000"
definition WAKE_UP_MS :: int where "WAKE_UP_MS = 5000"

text \<open>\<^verbatim>\<open>const { queueSize = 50 } = config\<close> and
  \<^verbatim>\<open>const timeout = 1000 * (config.timeout ?? 30)\<close>\<close>

definition queueSize :: "SocketConfig \<Rightarrow> int" where
  "queueSize cfg = (case SocketConfig.queueSize cfg of None \<Rightarrow> 50 | Some n \<Rightarrow> n)"

definition timeout :: "SocketConfig \<Rightarrow> int" where
  "timeout cfg = 1000 * (case SocketConfig.timeout cfg of None \<Rightarrow> 30 | Some n \<Rightarrow> n)"

definition socketQueueId :: "SocketConfig \<Rightarrow> string" where
  "socketQueueId cfg = walletId cfg @ ''=='' @ uri cfg"

definition effect :: "event \<Rightarrow> Socket \<Rightarrow> Socket" where
  "effect ev s = s\<lparr>trace := trace s @ [ev]\<rparr>"

text \<open>\<^verbatim>\<open>obj[key] = value\<close>: an existing key keeps its place, a new one comes last.\<close>

fun assign :: "string \<Rightarrow> 'v \<Rightarrow> (string \<times> 'v) list \<Rightarrow> (string \<times> 'v) list" where
  "assign k v [] = [(k, v)]"
| "assign k v ((k', v') # kvs) = (if k' = k then (k, v) # kvs else (k', v') # assign k v kvs)"

text \<open>Modelled from the spec: \<^verbatim>\<open>removeItem\<close> of \<^verbatim>\<open>../../plugin/utils\<close> (not among the
  sources), which removes the entry of a key from the Pending set.\<close>

definition removeItem :: "string \<Rightarrow> Socket \<Rightarrow> Socket" where
  "removeItem id' s = s\<lparr>pendingMessages := filter (\<lambda>(k, m). k \<noteq> id') (pendingMessages s)\<rparr>"

text \<open>A call of \<^verbatim>\<open>deferred.resolve\<close> or \<^verbatim>\<open>deferred.reject\<close>: the error it
  throws, if any, and the closure after it.\<close>

definition resolve_call :: "nat \<Rightarrow> js_value \<Rightarrow> Socket \<Rightarrow> js_error option \<times> Socket" where
  "resolve_call d v s =
     (let s1 = effect (ResolveCall d v) s in
      case settle d (Resolved v) (heap s1) of
        Inl e \<Rightarrow> (Some e, s1)
      | Inr h \<Rightarrow> (None, s1\<lparr>heap := h\<rparr>))"

definition reject_call :: "nat \<Rightarrow> js_error option \<Rightarrow> Socket \<Rightarrow> js_error option \<times> Socket" where
  "reject_call d r s =
     (let s1 = effect (RejectCall d r) s in
      case settle d (Rejected r) (heap s1) of
        Inl e \<Rightarrow> (Some e, s1)
      | Inr h \<Rightarrow> (None, s1\<lparr>heap := h\<rparr>))"

text \<open>\<^verbatim>\<open>try { deferred.reject(err) } catch (e) { log.error(e.message) }\<close>\<close>

definition try_reject :: "nat \<Rightarrow> js_error \<Rightarrow> Socket \<Rightarrow> Socket" where
  "try_reject d err s =
     (case reject_call d (Some err) s of
        (Some e, s1) \<Rightarrow> effect (LogError (error_message e)) s1
      | (None, s1) \<Rightarrow> s1)"

text \<open>\<^verbatim>\<open>emitter.emit(ev)\<close>\<close>

definition emit :: "SocketConfig \<Rightarrow> SocketEvent \<Rightarrow> Socket \<Rightarrow> js_error option \<times> Socket" where
  "emit cfg ev s = (emitter cfg ev, effect (Emit ev) s)"

subsection \<open>The handlers\<close>

definition disconnect :: "SocketConfig \<Rightarrow> Socket \<Rightarrow> Socket" where
  "disconnect cfg s =
     (let s1 = s\<lparr>timer := None, connected := False\<rparr>;
          s2 = (if socket s1 \<noteq> None then effect TransportDisconnect s1 else s1)
      in effect (RemoveIdFromQueue (socketQueueId cfg)) s2)"

definition handleError :: "SocketConfig \<Rightarrow> js_error \<Rightarrow> Socket \<Rightarrow> Socket" where
  "handleError cfg e s =
     (let s1 = (if error s = None then s\<lparr>error := Some e\<rparr> else s);
          s2 = (if connected s1 \<and> socket s1 = Some OPEN then disconnect cfg s1
                else s1\<lparr>cancelConnect := True\<rparr>)
      in effect (LogError ''handled error!'') s2)"

fun reject_all :: "js_error \<Rightarrow> WsMessage list \<Rightarrow> Socket \<Rightarrow> Socket" where
  "reject_all err [] s = s"
| "reject_all err (m # ms) s = reject_all err ms (try_reject (WsTask.deferred (task m)) err s)"

definition onSocketClose :: "SocketConfig \<Rightarrow> Socket \<Rightarrow> Socket" where
  "onSocketClose cfg s =
     (let err = (case error s of None \<Rightarrow> Error ''Socket close'' | Some e \<Rightarrow> e);
          s1 = s\<lparr>timer := None, connected := False, socket := None, cancelConnect := False\<rparr>;
          s2 = reject_all err (map snd (pendingMessages s1)) s1;
          s3 = s2\<lparr>pendingMessages := []\<rparr>
      in case emit cfg (CONNECTION_CLOSE (uri cfg) err) s3 of
           (Some e, s4) \<Rightarrow> effect (LogError (error_message e)) s4
         | (None, s4) \<Rightarrow> s4)"

text \<open>\<^verbatim>\<open>pushUpdate({ id: socketQueueId, updateFunc })\<close>: the queue runs \<open>doWakeUp\<close>
  later.\<close>

definition wakeUp :: "SocketConfig \<Rightarrow> Socket \<Rightarrow> Socket" where
  "wakeUp cfg s = effect (PushUpdate (socketQueueId cfg)) s"

text \<open>\<^verbatim>\<open>params ?? {}\<close>\<close>

definition params_or_empty :: "js_value \<Rightarrow> json" where
  "params_or_empty p = (case p of None \<Rightarrow> JObj [] | Some j \<Rightarrow> (if j = JNull then JObj [] else j))"

text \<open>
  \<^verbatim>\<open>transmitMessage(id, pending)\<close>. Both callers pass the object stored under \<open>id\<close>
  in \<open>pendingMessages\<close>, so the write to \<^verbatim>\<open>pending.startTime\<close> is a write to that entry.
\<close>

definition set_startTime :: "string \<Rightarrow> int \<Rightarrow> (string \<times> WsMessage) list \<Rightarrow> (string \<times> WsMessage) list" where
  "set_startTime id' now pm = map (\<lambda>(k, m). if k = id' then (k, m\<lparr>startTime := now\<rparr>) else (k, m)) pm"

definition transmitMessage :: "int \<Rightarrow> string \<Rightarrow> WsMessage \<Rightarrow> Socket \<Rightarrow> Socket" where
  "transmitMessage now id' pending s =
     (if socket s \<noteq> None \<and> socket s = Some OPEN \<and> connected s \<and> \<not> cancelConnect s then
        effect (Sent id' (WsTask.method (task pending)) (params_or_empty (WsTask.params (task pending))))
          (s\<lparr>pendingMessages := set_startTime id' now (pendingMessages s)\<rparr>)
      else s)"

definition submitTask :: "int \<Rightarrow> WsTask \<Rightarrow> Socket \<Rightarrow> Socket" where
  "submitTask now t s =
     (let id' = show_nat (nextId s);
          s1 = s\<lparr>nextId := nextId s + 1\<rparr>;
          message = \<lparr>task = t, startTime = now\<rparr>;
          s2 = s1\<lparr>pendingMessages := assign id' message (pendingMessages s1)\<rparr>
      in transmitMessage now id' message s2)"

fun transmitAll :: "int \<Rightarrow> (string \<times> WsMessage) list \<Rightarrow> Socket \<Rightarrow> Socket" where
  "transmitAll now [] s = s"
| "transmitAll now ((id', m) # es) s = transmitAll now es (transmitMessage now id' m s)"

definition onSocketConnect :: "SocketConfig \<Rightarrow> int \<Rightarrow> Socket \<Rightarrow> Socket" where
  "onSocketConnect cfg now s =
     (if cancelConnect s then (if socket s \<noteq> None then effect TransportDisconnect s else s)
      else
        (let s1 = s\<lparr>connected := True, lastKeepAlive := now\<rparr>;
             s2 = (case emit cfg (CONNECTION_OPEN (uri cfg)) s1 of
                     (Some e, s') \<Rightarrow> handleError cfg e s'
                   | (None, s') \<Rightarrow> s');
             s3 = transmitAll now (pendingMessages s2) s2;
             s4 = wakeUp cfg s3
         in s4\<lparr>cancelConnect := False\<rparr>))"

text \<open>
  One answer of the \<^verbatim>\<open>onQueueSpace\<close> callback: \<^verbatim>\<open>undefined\<close> (also what
  \<^verbatim>\<open>onQueueSpace?.(uri)\<close> gives when there is no callback), a boolean, a task, or a
  rejection. \<open>doWakeUp\<close> is given the answers of the successive calls of one cycle; it is
  \<open>Awaiting\<close> when it has called the callback once more than there are answers. Other
  handlers are not interleaved with the cycle.
\<close>

datatype pull = NoTask | Flag bool | NewTask WsTask | Fails js_error

datatype cycle = Done | Awaiting | Failed js_error

fun pull_loop :: "SocketConfig \<Rightarrow> int \<Rightarrow> pull list \<Rightarrow> Socket \<Rightarrow> cycle \<times> Socket" where
  "pull_loop cfg now answers s =
     (if int (length (pendingMessages s)) < queueSize cfg then
        (let s1 = effect (OnQueueSpace (uri cfg)) s in
         case answers of
           [] \<Rightarrow> (Awaiting, s1)
         | NoTask # rest \<Rightarrow> (Done, s1)
         | Flag b # rest \<Rightarrow> (if b then pull_loop cfg now rest s1 else (Done, s1))
         | NewTask t # rest \<Rightarrow> pull_loop cfg now rest (submitTask now t s1)
         | Fails e # rest \<Rightarrow> (Failed e, s1))
      else (Done, s))"

declare pull_loop.simps [simp del]

definition doWakeUp :: "SocketConfig \<Rightarrow> int \<Rightarrow> pull list \<Rightarrow> Socket \<Rightarrow> cycle \<times> Socket" where
  "doWakeUp cfg now answers s =
     (let s1 = s\<lparr>lastWakeUp := now\<rparr> in
      if connected s1 then pull_loop cfg now answers s1 else (Done, s1))"

definition subscribe :: "WsSubscription \<Rightarrow> Socket \<Rightarrow> Socket" where
  "subscribe subscription s =
     (if socket s \<noteq> None \<and> socket s = Some OPEN \<and> connected s then
        (let id' = WsSubscription.method subscription in
         effect (Sent id' (WsSubscription.method subscription)
                   (params_or_empty (WsSubscription.params subscription)))
           (s\<lparr>subscriptions := assign id' subscription (subscriptions s)\<rparr>))
      else s)"

definition setupTimer :: "SocketConfig \<Rightarrow> int \<Rightarrow> Socket \<Rightarrow> Socket" where
  "setupTimer cfg now0 s =
     (let nextWakeUp =
            fold (\<lambda>message nw. let to = startTime message + timeout cfg in if to < nw then to else nw)
              (map snd (pendingMessages s)) (lastWakeUp s + WAKE_UP_MS);
          now = now0 - TIMER_SLACK;
          delay = (if nextWakeUp < now then 0 else nextWakeUp - now)
      in s\<lparr>timer := Some delay\<rparr>)"

text \<open>The loop of \<open>onTimer\<close> over \<^verbatim>\<open>Object.entries(pendingMessages)\<close>, taken when the
  loop starts.\<close>

fun sweep :: "SocketConfig \<Rightarrow> int \<Rightarrow> (string \<times> WsMessage) list \<Rightarrow> Socket \<Rightarrow> Socket" where
  "sweep cfg now [] s = s"
| "sweep cfg now ((id', message) # es) s =
     sweep cfg now es
       (if startTime message + timeout cfg < now then
          removeItem id' (try_reject (WsTask.deferred (task message)) (Error ''Timeout'') s)
        else s)"

text \<open>\<open>onTimer\<close> starts the health check (\<^verbatim>\<open>config.healthCheck()\<close>); its outcome
  comes back later, in \<open>healthCheckSettled\<close>.\<close>

definition onTimer :: "SocketConfig \<Rightarrow> int \<Rightarrow> Socket \<Rightarrow> Socket" where
  "onTimer cfg now0 s =
     (let now = now0 - TIMER_SLACK;
          s1 = (if lastKeepAlive s + KEEP_ALIVE_MS < now
                then effect HealthCheck (s\<lparr>lastKeepAlive := now\<rparr>) else s);
          s2 = sweep cfg now (pendingMessages s1) s1;
          s3 = wakeUp cfg s2
      in setupTimer cfg now0 s3)"

definition healthCheckSettled :: "SocketConfig \<Rightarrow> int \<Rightarrow> js_error option \<Rightarrow> Socket \<Rightarrow> Socket" where
  "healthCheckSettled cfg now outcome s =
     (case outcome of
        Some e \<Rightarrow> handleError cfg e s
      | None \<Rightarrow>
          (case emit cfg (CONNECTION_TIMER (uri cfg) now) s of
             (Some e, s1) \<Rightarrow> handleError cfg e s1
           | (None, s1) \<Rightarrow> s1))"

text \<open>\<^verbatim>\<open>error.message != null ? error.message : error.connected\<close>, thrown as an
  \<^verbatim>\<open>Error\<close>\<close>

definition server_error :: "json \<Rightarrow> js_error" where
  "server_error err =
     (let m = prop_of err ''message'';
          errorMessage = (if \<not> is_nullish m then m else prop_of err ''connected'')
      in new_Error errorMessage)"

text \<open>A frame whose id is the key of a subscription.\<close>

definition onSubscriptionFrame :: "json \<Rightarrow> string \<Rightarrow> WsSubscription \<Rightarrow> Socket \<Rightarrow> js_error option \<times> Socket" where
  "onSubscriptionFrame json id' subscription s =
     (let data = prop_of json ''data'' in
      if \<not> is_nullish (opt_prop data ''subscribed'') then
        resolve_call (WsSubscription.deferred subscription) data
          (s\<lparr>subscriptions :=
               map (\<lambda>(k, sub). if k = id' then (k, sub\<lparr>subscribed := True\<rparr>) else (k, sub))
                 (subscriptions s)\<rparr>)
      else
        (case (if \<not> subscribed subscription
               then reject_call (WsSubscription.deferred subscription) None s else (None, s)) of
           (Some e, s1) \<Rightarrow> (Some e, s1)
         | (None, s1) \<Rightarrow>
             (case WsSubscription.cleaner subscription data of
                Inl e \<Rightarrow> (Some e, s1)
              | Inr v \<Rightarrow>
                  (cb subscription v, effect (Callback (WsSubscription.method subscription) v) s1))))"

text \<open>The inner \<^verbatim>\<open>try\<close> of a response: what \<^verbatim>\<open>resolve\<close> throws is caught and
  passed to \<^verbatim>\<open>reject\<close>, what \<^verbatim>\<open>reject\<close> throws leaves the handler.\<close>

definition resolve_or_reject :: "nat \<Rightarrow> js_value \<Rightarrow> Socket \<Rightarrow> js_error option \<times> Socket" where
  "resolve_or_reject d v s =
     (case resolve_call d v s of
        (Some e, s1) \<Rightarrow> reject_call d (Some e) s1
      | (None, s1) \<Rightarrow> (None, s1))"

text \<open>A frame whose id is not the key of a subscription.\<close>

definition onResponseFrame :: "string \<Rightarrow> json \<Rightarrow> string \<Rightarrow> Socket \<Rightarrow> js_error option \<times> Socket" where
  "onResponseFrame raw json id' s =
     (case map_of (pendingMessages s) id' of
        None \<Rightarrow> (Some (Error (''Bad response id in '' @ raw)), s)
      | Some message \<Rightarrow>
          (let s1 = removeItem id' s;
               err = prop_of json ''error'';
               d = WsTask.deferred (task message);
               data = prop_of json ''data''
           in if \<not> is_nullish err then
                (case err of
                   None \<Rightarrow> reject_call d (Some (new_Error None)) s1
                 | Some ej \<Rightarrow> reject_call d (Some (server_error ej)) s1)
              else
                (case WsTask.cleaner (task message) of
                   Some c \<Rightarrow>
                     (case c data of
                        Inl e \<Rightarrow> reject_call d (Some e) s1
                      | Inr v \<Rightarrow> resolve_or_reject d v s1)
                 | None \<Rightarrow> resolve_or_reject d data s1)))"

text \<open>
  \<open>onMessage\<close>. \<open>onMessageBody\<close> is the body of the outer \<^verbatim>\<open>try\<close>: it gives the error
  thrown out of it, if any, and the closure at that point.
\<close>

definition onMessageBody :: "frame \<Rightarrow> Socket \<Rightarrow> js_error option \<times> Socket" where
  "onMessageBody fr s =
     (case parsed fr of
        Inl e \<Rightarrow> (Some e, s)
      | Inr json \<Rightarrow>
          (case get_prop json ''id'' of
             Inl e \<Rightarrow> (Some e, s)
           | Inr idv \<Rightarrow>
               (if is_nullish idv then (None, s)
                else
                  (case idv of
                     None \<Rightarrow> (None, s)
                   | Some idj \<Rightarrow>
                       (case js_toString idj of
                          Inl e \<Rightarrow> (Some e, s)
                        | Inr id' \<Rightarrow>
                            (if id' \<in> set (map fst (subscriptions s)) then
                               (case map_of (subscriptions s) id' of
                                  None \<Rightarrow>
                                    (Some (Error (''cannot find subscription for '' @ id')), s)
                                | Some subscription \<Rightarrow>
                                    onSubscriptionFrame json id' subscription s)
                             else onResponseFrame (messageJson fr) json id' s))))))"

definition onMessage :: "SocketConfig \<Rightarrow> frame \<Rightarrow> Socket \<Rightarrow> Socket" where
  "onMessage cfg fr s =
     (case onMessageBody fr s of
        (Some e, s1) \<Rightarrow> wakeUp cfg (handleError cfg e s1)
      | (None, s1) \<Rightarrow> wakeUp cfg s1)"

text \<open>
  \<open>connect\<close>: the text \<^verbatim>\<open>uri.replace(/\/websocket\/?$/, '') + '/websocket'\<close>. The
  pattern is anchored at the end of the text, so it matches the last ten characters
  \<^verbatim>\<open>/websocket\<close> or the last eleven \<^verbatim>\<open>/websocket/\<close>, and nothing else.
\<close>

definition strip_websocket :: "string \<Rightarrow> string" where
  "strip_websocket u =
     (if suffix ''/websocket/'' u then take (length u - 11) u
      else if suffix ''/websocket'' u then take (length u - 10) u
      else u)"

definition fullUri :: "string \<Rightarrow> string" where
  "fullUri u = strip_websocket u @ ''/websocket''"

text \<open>The transport made by \<^verbatim>\<open>setupBrowser\<close> or \<^verbatim>\<open>setupWS\<close> starts connecting; the
  promise \<open>connect\<close> returns is resolved by \<open>onOpen\<close>.\<close>

definition connect :: "SocketConfig \<Rightarrow> Socket \<Rightarrow> Socket" where
  "connect cfg s =
     (let s1 = (if socket s \<noteq> None then effect TransportDisconnect s else s)
      in (effect (TransportCreate (fullUri (uri cfg))) s1)\<lparr>socket := Some CONNECTING\<rparr>)"

text \<open>The transport's callbacks \<^verbatim>\<open>onOpen\<close> and \<^verbatim>\<open>onError\<close>; \<open>ev\<close> is
  \<^verbatim>\<open>JSON.stringify(event)\<close>.\<close>

definition onOpen :: "SocketConfig \<Rightarrow> int \<Rightarrow> Socket \<Rightarrow> Socket" where
  "onOpen cfg now s = onSocketConnect cfg now s"

definition onError :: "string \<Rightarrow> Socket \<Rightarrow> Socket" where
  "onError ev s = s\<lparr>error := Some (Error ev)\<rparr>"

text \<open>The method \<^verbatim>\<open>disconnect()\<close> of the returned object.\<close>

definition Socket_disconnect :: "SocketConfig \<Rightarrow> Socket \<Rightarrow> Socket" where
  "Socket_disconnect cfg s =
     (let s1 = (if socket s \<noteq> None then effect TransportDisconnect s else s)
      in disconnect cfg (s1\<lparr>socket := None\<rparr>))"

text \<open>The transport changes its \<^verbatim>\<open>readyState\<close> by itself.\<close>

definition transportState :: "ReadyState \<Rightarrow> Socket \<Rightarrow> Socket" where
  "transportState r s = s\<lparr>socket := map_option (\<lambda>x. r) (socket s)\<rparr>"

text \<open>
  The closure when \<^verbatim>\<open>makeSocket\<close> returns: the initial values of its variables, and the
  timer armed by the call of \<open>setupTimer\<close> that ends it. \<open>h\<close> holds the Deferred objects
  of the tasks and subscriptions to come.
\<close>

definition makeSocket :: "SocketConfig \<Rightarrow> int \<Rightarrow> (nat \<Rightarrow> Deferred) \<Rightarrow> Socket" where
  "makeSocket cfg now0 h =
     setupTimer cfg now0
       \<lparr>socket = None, subscriptions = [], pendingMessages = [], nextId = 0,
        lastKeepAlive = 0, lastWakeUp = 0, connected = False, cancelConnect = False,
        error = None, timer = None, heap = h, trace = []\<rparr>"

subsection \<open>Runs\<close>

text \<open>Everything that can happen to a socket: the calls of its methods, the callbacks of
  its transport, its timer, a wake-up cycle and the outcome of a health check.\<close>

datatype call =
    Connect
  | Disconnect
  | SubmitTask int WsTask
  | Subscribe WsSubscription
  | OnOpen int
  | OnMessage frame
  | OnError string
  | OnClose
  | OnTimer int
  | DoWakeUp int "pull list"
  | HealthCheckSettled int "js_error option"
  | TransportState ReadyState

fun step :: "SocketConfig \<Rightarrow> call \<Rightarrow> Socket \<Rightarrow> Socket" where
  "step cfg Connect s = connect cfg s"
| "step cfg Disconnect s = Socket_disconnect cfg s"
| "step cfg (SubmitTask now t) s = submitTask now t s"
| "step cfg (Subscribe sub) s = subscribe sub s"
| "step cfg (OnOpen now) s = onOpen cfg now s"
| "step cfg (OnMessage fr) s = onMessage cfg fr s"
| "step cfg (OnError ev) s = onError ev s"
| "step cfg OnClose s = onSocketClose cfg s"
| "step cfg (OnTimer now) s = onTimer cfg now s"
| "step cfg (DoWakeUp now answers) s = snd (doWakeUp cfg now answers s)"
| "step cfg (HealthCheckSettled now outcome) s = healthCheckSettled cfg now outcome s"
| "step cfg (TransportState r) s = transportState r s"

fun run :: "SocketConfig \<Rightarrow> call list \<Rightarrow> Socket \<Rightarrow> Socket" where
  "run cfg [] s = s"
| "run cfg (c # cs) s = run cfg cs (step cfg c s)"

text \<open>What a handler added to the trace, and the calls of \<^verbatim>\<open>reject\<close> among events.\<close>

definition added :: "Socket \<Rightarrow> Socket \<Rightarrow> event list" where
  "added s s' = drop (length (trace s)) (trace s')"

fun rejects :: "event list \<Rightarrow> (nat \<times> js_error option) list" where
  "rejects [] = []"
| "rejects (RejectCall d r # es) = (d, r) # rejects es"
| "rejects (e # es) = rejects es"

subsection \<open>Invariants\<close>

text \<open>A handler that touches nothing of the closure but the Deferred objects and the
  trace.\<close>

definition outside :: "Socket \<Rightarrow> Socket \<Rightarrow> bool" where
  "outside s s' = (s' = s\<lparr>heap := heap s', trace := trace s'\<rparr>)"

text \<open>Reading decimal digits back, to tell the ids of two counter values apart.\<close>

definition read_nat :: "string \<Rightarrow> nat" where
  "read_nat cs = foldl (\<lambda>a c. 10 * a + (of_char c - 48)) 0 cs"

text \<open>The Pending set is well formed: its keys are distinct, and each is the decimal text
  of a value the counter \<open>nextId\<close> has already passed.\<close>

definition pending_ok :: "Socket \<Rightarrow> bool" where
  "pending_ok s =
     (distinct (map fst (pendingMessages s)) \<and>
      list_all (\<lambda>k. read_nat k < nextId s \<and> show_nat (read_nat k) = k) (map fst (pendingMessages s)))"

text \<open>What every handler but the transport's error callback keeps: the counter does not go
  back, a recorded error stays, a well-formed Pending set stays well formed.\<close>

definition grows :: "Socket \<Rightarrow> Socket \<Rightarrow> bool" where
  "grows s s' =
     (nextId s \<le> nextId s' \<and> (error s \<noteq> None \<longrightarrow> error s' = error s) \<and>
      (pending_ok s \<longrightarrow> pending_ok s'))"

subsection \<open>Sample data\<close>

text \<open>Three Deferred objects: 0 is unsettled, 1 is unsettled and throws when called, 2 was
  resolved before; every other address is unsettled.\<close>

definition heap0 :: "nat \<Rightarrow> Deferred" where
  "heap0 d =
     \<lparr>settled = (if d = 2 then Resolved None else Unsettled),
      fault = (if d = 1 then Some (Error ''broken'') else None)\<rparr>"

definition config0 :: SocketConfig where
  "config0 =
     \<lparr>uri = ''wss://h'', walletId = ''w'', queueSize = None, timeout = None,
      emitter = (\<lambda>ev. None)\<rparr>"

definition task0 :: "nat \<Rightarrow> WsTask" where
  "task0 d = \<lparr>WsTask.method = ''getInfo'', params = None, deferred = d, cleaner = None\<rparr>"

text \<open>An open socket with three tasks pending, sent at times 0, 0 and 100000.\<close>

definition socket0 :: Socket where
  "socket0 =
     \<lparr>socket = Some OPEN, subscriptions = [],
      pendingMessages =
        [(''0'', \<lparr>task = task0 0, startTime = 0\<rparr>),
         (''1'', \<lparr>task = task0 1, startTime = 0\<rparr>),
         (''2'', \<lparr>task = task0 2, startTime = 100000\<rparr>)],
      nextId = 3, lastKeepAlive = 0, lastWakeUp = 0, connected = True,
      cancelConnect = False, error = None, timer = None, heap = heap0, trace = []\<rparr>"


definition subX :: WsSubscription where
  "subX =
     \<lparr>WsSubscription.method = ''X'', params = None, cb = (\<lambda>v. None), subscribed = False,
      cleaner = (\<lambda>v. Inr v), deferred = 3\<rparr>"



definition frame0 :: frame where
  "frame0 =
     \<lparr>messageJson = ''{\"id\":\"0\",\"data\":1}'',
      parsed = Inr (JObj [(''id'', JStr ''0''), (''data'', JNum 1)])\<rparr>"

section \<open>Properties\<close>

subsection \<open>Basic facts\<close>

lemma outside_refl: "outside s s"
  by (simp add: outside_def)

lemma outside_trans: "outside s s1 \<Longrightarrow> outside s1 s2 \<Longrightarrow> outside s s2"
  unfolding outside_def
  by (metis (no_types, lifting) Socket.surjective Socket.update_convs(11) Socket.update_convs(12))

lemma outside_fields:
  assumes "outside s s'"
  shows "socket s' = socket s" "subscriptions s' = subscriptions s"
    "pendingMessages s' = pendingMessages s" "nextId s' = nextId s"
    "lastKeepAlive s' = lastKeepAlive s" "lastWakeUp s' = lastWakeUp s"
    "connected s' = connected s" "cancelConnect s' = cancelConnect s"
    "error s' = error s" "timer s' = timer s"
  using assms unfolding outside_def
  by (cases s; cases s'; simp)+

lemma rejects_append: "rejects (xs @ ys) = rejects xs @ rejects ys"
  by (induction xs rule: rejects.induct) auto

lemma added_append: "trace s' = trace s @ xs \<Longrightarrow> added s s' = xs"
  by (simp add: added_def)

lemma effect_fields:
  "trace (effect ev s) = trace s @ [ev]" "heap (effect ev s) = heap s"
  "outside s (effect ev s)"
  by (simp_all add: effect_def outside_def)

lemma reject_call_eq:
  "reject_call d r s =
     (fault (heap s d),
      s\<lparr>heap := (\<lambda>x. if x = d \<and> settled (heap s d) = Unsettled \<and> fault (heap s d) = None
                      then (heap s d)\<lparr>settled := Rejected r\<rparr> else heap s x),
        trace := trace s @ [RejectCall d r]\<rparr>)"
  by (auto simp: reject_call_def settle_def effect_def Let_def fun_upd_def split: option.splits)

lemma try_reject_eq:
  "try_reject d err s =
     s\<lparr>heap := (\<lambda>x. if x = d \<and> settled (heap s d) = Unsettled \<and> fault (heap s d) = None
                      then (heap s d)\<lparr>settled := Rejected (Some err)\<rparr> else heap s x),
       trace := trace s @ RejectCall d (Some err) #
                  (case fault (heap s d) of None \<Rightarrow> [] | Some e \<Rightarrow> [LogError (error_message e)])\<rparr>"
  by (auto simp: try_reject_def reject_call_eq effect_def split: option.splits)

lemma try_reject_outside: "outside s (try_reject d err s)"
  by (simp add: try_reject_eq outside_def)

subsection \<open>The normalised URI\<close>

lemma suffix_take: "suffix s u \<Longrightarrow> length s = n \<Longrightarrow> take (length u - n) u @ s = u"
  by (auto simp: suffix_def)

lemma suffix_slash: "suffix ''/websocket/'' u \<Longrightarrow> \<not> suffix ''/websocket'' u"
  by (auto simp: suffix_def)

lemma fullUri_of_suffix: "suffix ''/websocket'' u \<Longrightarrow> fullUri u = u"
  using suffix_take [of "''/websocket''" u 10] suffix_slash [of u]
  by (auto simp: fullUri_def strip_websocket_def)

lemma fullUri_of_slash: "suffix ''/websocket/'' u \<Longrightarrow> fullUri u = butlast u"
  by (auto simp: fullUri_def strip_websocket_def suffix_def butlast_append)

lemma fullUri_of_other:
  "\<not> suffix ''/websocket'' u \<Longrightarrow> \<not> suffix ''/websocket/'' u \<Longrightarrow> fullUri u = u @ ''/websocket''"
  by (simp add: fullUri_def strip_websocket_def)

lemma fullUri_suffix: "suffix ''/websocket'' (fullUri u)"
  by (simp add: fullUri_def suffix_def)

lemma fullUri_idem: "fullUri (fullUri u) = fullUri u"
  by (rule fullUri_of_suffix [OF fullUri_suffix])

lemma fullUri_single:
  assumes "\<not> suffix ''/websocket/websocket'' u" "\<not> suffix ''/websocket/websocket/'' u"
  shows "\<not> suffix ''/websocket/websocket'' (fullUri u)"
  using assms
  by (auto simp: fullUri_def strip_websocket_def suffix_def)

subsection \<open>Closing\<close>

lemma reject_all_outside: "outside s (reject_all err ms s)"
proof (induction ms arbitrary: s)
  case Nil
  show ?case by (simp add: outside_refl)
next
  case (Cons m ms)
  show ?case
    using outside_trans [OF try_reject_outside Cons.IH] by simp
qed

lemma reject_all_trace:
  "\<exists>xs. trace (reject_all err ms s) = trace s @ xs \<and>
        rejects xs = map (\<lambda>m. (WsTask.deferred (task m), Some err)) ms"
proof (induction ms arbitrary: s)
  case Nil
  show ?case by simp
next
  case (Cons m ms)
  obtain xs where xs: "trace (reject_all err ms (try_reject (WsTask.deferred (task m)) err s)) =
      trace (try_reject (WsTask.deferred (task m)) err s) @ xs"
    "rejects xs = map (\<lambda>m. (WsTask.deferred (task m), Some err)) ms"
    using Cons.IH by blast
  show ?case
    using xs by (auto simp: try_reject_eq rejects_append split: option.splits)
qed

lemma reject_all_trace_frame:
  "trace s1 = trace s \<Longrightarrow>
   \<exists>xs. trace (reject_all err ms s1) = trace s @ xs \<and>
        rejects xs = map (\<lambda>m. (WsTask.deferred (task m), Some err)) ms"
  using reject_all_trace [of err ms s1] by simp

lemma reject_all_heap:
  "heap (reject_all err ms s) x =
     (if x \<in> set (map (\<lambda>m. WsTask.deferred (task m)) ms) \<and> settled (heap s x) = Unsettled
         \<and> fault (heap s x) = None
      then (heap s x)\<lparr>settled := Rejected (Some err)\<rparr> else heap s x)"
proof (induction ms arbitrary: s)
  case Nil
  show ?case by simp
next
  case (Cons m ms)
  show ?case
    by (auto simp: Cons.IH try_reject_eq)
qed

lemma onSocketClose_pending: "pendingMessages (onSocketClose cfg s) = []"
  by (simp add: onSocketClose_def emit_def effect_def Let_def split: option.splits)

lemma onSocketClose_heap:
  "heap (onSocketClose cfg s) x =
     (if x \<in> set (map (\<lambda>(k, m). WsTask.deferred (task m)) (pendingMessages s))
         \<and> settled (heap s x) = Unsettled \<and> fault (heap s x) = None
      then (heap s x)\<lparr>settled := Rejected (Some (case error s of None \<Rightarrow> Error ''Socket close'' | Some e \<Rightarrow> e))\<rparr>
      else heap s x)"
  by (simp add: onSocketClose_def emit_def effect_def Let_def reject_all_heap case_prod_unfold comp_def
        split: option.splits)

lemma onSocketClose_trace:
  "\<exists>xs ys. trace (onSocketClose cfg s) = trace s @ xs @ ys \<and> rejects ys = [] \<and>
     rejects xs = map (\<lambda>m. (WsTask.deferred (task m),
        Some (case error s of None \<Rightarrow> Error ''Socket close'' | Some e \<Rightarrow> e))) (map snd (pendingMessages s))"
proof -
  define err where "err = (case error s of None \<Rightarrow> Error ''Socket close'' | Some e \<Rightarrow> e)"
  define s1 where "s1 = s\<lparr>timer := None, connected := False, socket := None, cancelConnect := False\<rparr>"
  have t1: "trace s1 = trace s"
    by (simp add: s1_def)
  obtain xs where xs: "trace (reject_all err (map snd (pendingMessages s)) s1) = trace s @ xs"
    "rejects xs = map (\<lambda>m. (WsTask.deferred (task m), Some err)) (map snd (pendingMessages s))"
    using reject_all_trace_frame [OF t1] by blast
  have eq: "onSocketClose cfg s =
      (case emit cfg (CONNECTION_CLOSE (uri cfg) err)
              ((reject_all err (map snd (pendingMessages s)) s1)\<lparr>pendingMessages := []\<rparr>) of
         (Some e, s4) \<Rightarrow> effect (LogError (error_message e)) s4
       | (None, s4) \<Rightarrow> s4)"
    unfolding onSocketClose_def Let_def err_def s1_def by simp
  have "\<exists>ys. trace (onSocketClose cfg s) = trace s @ xs @ ys \<and> rejects ys = []"
    unfolding eq using xs(1)
    by (cases "emitter cfg (CONNECTION_CLOSE (uri cfg) err)") (simp_all add: emit_def effect_def)
  then show ?thesis
    using xs(2) unfolding err_def by blast
qed

lemma onSocketClose_rejects:
  "rejects (added s (onSocketClose cfg s)) =
     map (\<lambda>(k, m). (WsTask.deferred (task m), Some (case error s of None \<Rightarrow> Error ''Socket close'' | Some e \<Rightarrow> e)))
       (pendingMessages s)"
proof -
  obtain xs ys where t: "trace (onSocketClose cfg s) = trace s @ xs @ ys" "rejects ys = []"
     "rejects xs = map (\<lambda>m. (WsTask.deferred (task m),
        Some (case error s of None \<Rightarrow> Error ''Socket close'' | Some e \<Rightarrow> e))) (map snd (pendingMessages s))"
    using onSocketClose_trace by blast
  have "added s (onSocketClose cfg s) = xs @ ys"
    using t(1) by (simp add: added_def)
  then show ?thesis
    using t(2,3) by (simp add: rejects_append case_prod_unfold comp_def)
qed

subsection \<open>The timer\<close>

lemma removeItem_fields:
  "pendingMessages (removeItem k s) = filter (\<lambda>(k', m). k' \<noteq> k) (pendingMessages s)"
  "heap (removeItem k s) = heap s" "trace (removeItem k s) = trace s"
  by (simp_all add: removeItem_def)

lemma sweep_pending:
  "pendingMessages (sweep cfg now es s) =
     filter (\<lambda>(k, m). k \<notin> set (map fst (filter (\<lambda>(k, m). startTime m + timeout cfg < now) es)))
       (pendingMessages s)"
proof (induction es arbitrary: s)
  case Nil
  show ?case by simp
next
  case (Cons e es)
  obtain k m where e: "e = (k, m)" by (cases e)
  show ?case
    unfolding e
    by (auto simp: Cons.IH removeItem_fields outside_fields [OF try_reject_outside] intro!: filter_cong)
qed

lemma sweep_trace:
  "\<exists>xs. trace (sweep cfg now es s) = trace s @ xs \<and>
        rejects xs = map (\<lambda>(k, m). (WsTask.deferred (task m), Some (Error ''Timeout'')))
                       (filter (\<lambda>(k, m). startTime m + timeout cfg < now) es)"
proof (induction es arbitrary: s)
  case Nil
  show ?case by simp
next
  case (Cons e es)
  obtain k m where e: "e = (k, m)" by (cases e)
  show ?case
  proof (cases "startTime m + timeout cfg < now")
    case True
    define s1 where "s1 = removeItem k (try_reject (WsTask.deferred (task m)) (Error ''Timeout'') s)"
    obtain xs where xs: "trace (sweep cfg now es s1) = trace s1 @ xs"
      "rejects xs = map (\<lambda>(k, m). (WsTask.deferred (task m), Some (Error ''Timeout'')))
                       (filter (\<lambda>(k, m). startTime m + timeout cfg < now) es)"
      using Cons.IH by blast
    show ?thesis
      using xs True unfolding e s1_def
      by (auto simp: removeItem_fields try_reject_eq rejects_append split: option.splits)
  next
    case False
    then show ?thesis
      using Cons.IH [of s] unfolding e by simp
  qed
qed

lemma sweep_heap:
  "heap (sweep cfg now es s) x =
     (if x \<in> set (map (\<lambda>(k, m). WsTask.deferred (task m))
                    (filter (\<lambda>(k, m). startTime m + timeout cfg < now) es))
         \<and> settled (heap s x) = Unsettled \<and> fault (heap s x) = None
      then (heap s x)\<lparr>settled := Rejected (Some (Error ''Timeout''))\<rparr> else heap s x)"
proof (induction es arbitrary: s)
  case Nil
  show ?case by simp
next
  case (Cons e es)
  obtain k m where e: "e = (k, m)" by (cases e)
  show ?case
    unfolding e
    by (auto simp: Cons.IH removeItem_fields try_reject_eq)
qed

lemma distinct_keys_filter:
  assumes "distinct (map fst pm)"
  shows "filter (\<lambda>(k, m). k \<notin> set (map fst (filter (\<lambda>(k, m). P m) pm))) pm =
         filter (\<lambda>(k, m). \<not> P m) pm"
proof (rule filter_cong [OF refl])
  fix e assume e: "e \<in> set pm"
  obtain k m where km: "e = (k, m)" by (cases e)
  have "k \<in> set (map fst (filter (\<lambda>(k, m). P m) pm)) \<longleftrightarrow> P m"
  proof
    assume "k \<in> set (map fst (filter (\<lambda>(k, m). P m) pm))"
    then obtain m' where m': "(k, m') \<in> set pm" "P m'" by auto
    have "m' = m"
      using assms m'(1) e km by (meson eq_key_imp_eq_value)
    with m'(2) show "P m" by simp
  next
    assume "P m"
    then show "k \<in> set (map fst (filter (\<lambda>(k, m). P m) pm))"
      using e km by force
  qed
  then show "(case e of (k, m) \<Rightarrow> k \<notin> set (map fst (filter (\<lambda>(k, m). P m) pm))) =
             (case e of (k, m) \<Rightarrow> \<not> P m)"
    by (simp add: km)
qed

lemma onTimer_pending:
  "pendingMessages (onTimer cfg now0 s) =
     filter (\<lambda>(k, m). k \<notin> set (map fst (filter (\<lambda>(k, m). startTime m + timeout cfg < now0 - TIMER_SLACK)
        (pendingMessages s)))) (pendingMessages s)"
  by (simp add: onTimer_def Let_def setupTimer_def wakeUp_def effect_def sweep_pending)

lemma onTimer_heap:
  "heap (onTimer cfg now0 s) x =
     (if x \<in> set (map (\<lambda>(k, m). WsTask.deferred (task m))
                    (filter (\<lambda>(k, m). startTime m + timeout cfg < now0 - TIMER_SLACK) (pendingMessages s)))
         \<and> settled (heap s x) = Unsettled \<and> fault (heap s x) = None
      then (heap s x)\<lparr>settled := Rejected (Some (Error ''Timeout''))\<rparr> else heap s x)"
  by (simp add: onTimer_def Let_def setupTimer_def wakeUp_def effect_def sweep_heap)

lemma onTimer_rejects:
  "rejects (added s (onTimer cfg now0 s)) =
     map (\<lambda>(k, m). (WsTask.deferred (task m), Some (Error ''Timeout'')))
       (filter (\<lambda>(k, m). startTime m + timeout cfg < now0 - TIMER_SLACK) (pendingMessages s))"
proof -
  define s1 where "s1 = (if lastKeepAlive s + KEEP_ALIVE_MS < now0 - TIMER_SLACK
                then effect HealthCheck (s\<lparr>lastKeepAlive := now0 - TIMER_SLACK\<rparr>) else s)"
  have p1: "pendingMessages s1 = pendingMessages s"
    by (simp add: s1_def effect_def)
  obtain hs where hs: "trace s1 = trace s @ hs" "rejects hs = []"
    by (cases "lastKeepAlive s + KEEP_ALIVE_MS < now0 - TIMER_SLACK") (simp_all add: s1_def effect_def)
  obtain xs where xs: "trace (sweep cfg (now0 - TIMER_SLACK) (pendingMessages s) s1) = trace s1 @ xs"
    "rejects xs = map (\<lambda>(k, m). (WsTask.deferred (task m), Some (Error ''Timeout'')))
       (filter (\<lambda>(k, m). startTime m + timeout cfg < now0 - TIMER_SLACK) (pendingMessages s))"
    using sweep_trace by blast
  have "trace (onTimer cfg now0 s) = trace s @ hs @ xs @ [PushUpdate (socketQueueId cfg)]"
    using xs(1) hs(1)
    by (simp add: onTimer_def Let_def setupTimer_def wakeUp_def effect_def s1_def [symmetric] p1)
  then have "added s (onTimer cfg now0 s) = hs @ xs @ [PushUpdate (socketQueueId cfg)]"
    by (simp add: added_def)
  then show ?thesis
    using hs(2) xs(2) by (simp add: rejects_append)
qed

subsection \<open>Transmission\<close>

lemma map_of_set_startTime:
  "map_of (set_startTime k now pm) k' =
     (if k' = k then map_option (\<lambda>m. m\<lparr>startTime := now\<rparr>) (map_of pm k) else map_of pm k')"
  by (induction pm) (auto simp: set_startTime_def)

lemma keys_set_startTime: "map fst (set_startTime k now pm) = map fst pm"
  by (induction pm) (auto simp: set_startTime_def)

lemma map_of_assign: "map_of (assign k v kvs) k' = (if k' = k then Some v else map_of kvs k')"
  by (induction kvs) auto

lemma keys_assign:
  "map fst (assign k v kvs) = (if k \<in> set (map fst kvs) then map fst kvs else map fst kvs @ [k])"
  by (induction kvs) (fastforce simp: image_iff)+

subsection \<open>The counter of ids\<close>

lemma read_nat_snoc: "read_nat (cs @ [c]) = 10 * read_nat cs + (of_char c - 48)"
  by (simp add: read_nat_def)

lemma read_digit: "d < 10 \<Longrightarrow> (of_char (char_of (48 + d)) :: nat) - 48 = d"
  by (simp add: of_char_of)

lemma show_nat_small: "n < 10 \<Longrightarrow> show_nat n = [char_of (48 + n)]"
  by (subst show_nat.simps) simp

lemma show_nat_big: "\<not> n < 10 \<Longrightarrow> show_nat n = show_nat (n div 10) @ [char_of (48 + n mod 10)]"
  by (subst show_nat.simps) simp

lemma read_show: "read_nat (show_nat n) = n"
proof (induction n rule: show_nat.induct)
  case (1 n)
  show ?case
  proof (cases "n < 10")
    case True
    have "read_nat [char_of (48 + n)] = of_char (char_of (48 + n)) - 48"
      using read_nat_snoc [of "[]" "char_of (48 + n)"] by (simp add: read_nat_def)
    then show ?thesis
      by (simp only: show_nat_small [OF True] read_digit [OF True])
  next
    case False
    have d: "(of_char (char_of (48 + n mod 10)) :: nat) - 48 = n mod 10"
      by (rule read_digit) simp
    have "read_nat (show_nat n) = 10 * read_nat (show_nat (n div 10)) + n mod 10"
      by (simp only: show_nat_big [OF False] read_nat_snoc d)
    also have "\<dots> = 10 * (n div 10) + n mod 10"
      by (simp only: "1.IH" [OF False])
    also have "\<dots> = n"
      by simp
    finally show ?thesis .
  qed
qed

lemma show_nat_inj: "show_nat m = show_nat n \<Longrightarrow> m = n"
  by (metis read_show)

lemma grows_refl: "grows s s"
  by (simp add: grows_def)

lemma grows_trans: "grows s s1 \<Longrightarrow> grows s1 s2 \<Longrightarrow> grows s s2"
  by (auto simp: grows_def)

lemma grows_same:
  "pendingMessages s' = pendingMessages s \<Longrightarrow> nextId s' = nextId s \<Longrightarrow> error s' = error s
   \<Longrightarrow> grows s s'"
  by (simp add: grows_def pending_ok_def)

lemma grows_outside: "outside s s' \<Longrightarrow> grows s s'"
  by (rule grows_same) (simp_all add: outside_fields)

lemma list_all_keys_filter:
  "list_all Q (map fst pm) \<Longrightarrow> list_all Q (map fst (filter P pm))"
  by (induction pm) auto

lemma grows_filter:
  assumes "pendingMessages s' = filter P (pendingMessages s)" "nextId s' = nextId s"
    "error s' = error s"
  shows "grows s s'"
  unfolding grows_def pending_ok_def assms
  using distinct_map_filter [of fst "pendingMessages s" P]
    list_all_keys_filter [of _ "pendingMessages s" P]
  by blast

lemma grows_removeItem: "grows s (removeItem k s)"
  by (rule grows_filter [where P = "\<lambda>(k', m). k' \<noteq> k"]) (simp_all add: removeItem_def)

lemma grows_effect: "grows s (effect ev s)"
  by (rule grows_outside) (rule effect_fields)

lemma grows_disconnect: "grows s (disconnect cfg s)"
  by (rule grows_same) (simp_all add: disconnect_def effect_def Let_def)

lemma handleError_fields:
  "pendingMessages (handleError cfg e s) = pendingMessages s"
  "nextId (handleError cfg e s) = nextId s"
  "error (handleError cfg e s) = (case error s of None \<Rightarrow> Some e | Some e0 \<Rightarrow> Some e0)"
  "heap (handleError cfg e s) = heap s"
  "subscriptions (handleError cfg e s) = subscriptions s"
  by (simp_all add: handleError_def disconnect_def effect_def Let_def split: option.splits)

lemma grows_handleError: "grows s (handleError cfg e s)"
  by (auto simp: grows_def pending_ok_def handleError_fields)

lemma grows_wakeUp: "grows s (wakeUp cfg s)"
  unfolding wakeUp_def by (rule grows_effect)

lemma grows_transmitMessage: "grows s (transmitMessage now k pending s)"
  by (auto simp: grows_def pending_ok_def transmitMessage_def effect_def keys_set_startTime)

lemma submitTask_fields:
  "nextId (submitTask now t s) = Suc (nextId s)"
  "error (submitTask now t s) = error s"
  "map fst (pendingMessages (submitTask now t s)) =
     map fst (assign (show_nat (nextId s)) \<lparr>task = t, startTime = now\<rparr> (pendingMessages s))"
  "connected (submitTask now t s) = connected s"
  "lastWakeUp (submitTask now t s) = lastWakeUp s"
  by (simp_all add: submitTask_def transmitMessage_def effect_def Let_def keys_set_startTime)

lemma fresh_id:
  assumes "pending_ok s"
  shows "show_nat (nextId s) \<notin> set (map fst (pendingMessages s))"
proof
  assume "show_nat (nextId s) \<in> set (map fst (pendingMessages s))"
  then have "read_nat (show_nat (nextId s)) < nextId s"
    using assms by (auto simp: pending_ok_def list_all_iff)
  then show False
    by (simp add: read_show)
qed

lemma grows_submitTask: "grows s (submitTask now t s)"
proof -
  have "pending_ok (submitTask now t s)" if ok: "pending_ok s"
  proof -
    have k: "map fst (pendingMessages (submitTask now t s)) =
        map fst (pendingMessages s) @ [show_nat (nextId s)]"
      using fresh_id [OF ok] by (simp add: submitTask_fields keys_assign)
    have n: "nextId (submitTask now t s) = Suc (nextId s)"
      by (rule submitTask_fields)
    have "list_all (\<lambda>k. read_nat k < Suc (nextId s) \<and> show_nat (read_nat k) = k)
            (map fst (pendingMessages s))"
      using ok unfolding pending_ok_def list_all_iff by auto
    then show ?thesis
      using ok fresh_id [OF ok]
      unfolding pending_ok_def k n
      by (simp add: read_show)
  qed
  then show ?thesis
    by (simp add: grows_def submitTask_fields)
qed

lemma resolve_call_eq:
  "resolve_call d v s =
     (fault (heap s d),
      s\<lparr>heap := (\<lambda>x. if x = d \<and> settled (heap s d) = Unsettled \<and> fault (heap s d) = None
                      then (heap s d)\<lparr>settled := Resolved v\<rparr> else heap s x),
        trace := trace s @ [ResolveCall d v]\<rparr>)"
  by (auto simp: resolve_call_def settle_def effect_def Let_def fun_upd_def split: option.splits)

lemma reject_call_outside: "outside s (snd (reject_call d r s))"
  by (simp add: reject_call_eq outside_def)

lemma resolve_call_outside: "outside s (snd (resolve_call d v s))"
  by (simp add: resolve_call_eq outside_def)

lemma resolve_or_reject_outside: "outside s (snd (resolve_or_reject d v s))"
  by (simp add: resolve_or_reject_def resolve_call_eq reject_call_eq outside_def split: option.splits)

lemma grows_reject_all: "grows s (reject_all err ms s)"
  by (rule grows_outside) (rule reject_all_outside)

lemma onSocketClose_fields:
  "nextId (onSocketClose cfg s) = nextId s" "error (onSocketClose cfg s) = error s"
  "subscriptions (onSocketClose cfg s) = subscriptions s"
  by (simp_all add: onSocketClose_def emit_def effect_def Let_def outside_fields [OF reject_all_outside]
        split: option.splits)

lemma grows_onSocketClose: "grows s (onSocketClose cfg s)"
  by (simp add: grows_def pending_ok_def onSocketClose_fields onSocketClose_pending)

lemma grows_transmitAll: "grows s (transmitAll now es s)"
proof (induction es arbitrary: s)
  case Nil
  show ?case by (simp add: grows_refl)
next
  case (Cons e es)
  obtain k m where e: "e = (k, m)" by (cases e)
  show ?case
    unfolding e using grows_trans [OF grows_transmitMessage Cons.IH] by simp
qed

lemma grows_emit: "grows s (snd (emit cfg ev s))"
  by (simp add: emit_def grows_effect)

lemma grows_field_update:
  "grows s (s\<lparr>connected := c, lastKeepAlive := t\<rparr>)" "grows s (s\<lparr>cancelConnect := b\<rparr>)"
  "grows s (s\<lparr>lastWakeUp := t\<rparr>)" "grows s (s\<lparr>lastKeepAlive := t\<rparr>)"
  "grows s (s\<lparr>subscriptions := ss\<rparr>)" "grows s (s\<lparr>socket := x\<rparr>)" "grows s (s\<lparr>timer := y\<rparr>)"
  by (simp_all add: grows_def pending_ok_def)

lemma grows_onSocketConnect: "grows s (onSocketConnect cfg now s)"
proof (cases "cancelConnect s")
  case True
  then show ?thesis
    by (simp add: onSocketConnect_def grows_effect grows_refl)
next
  case False
  define s1 where "s1 = s\<lparr>connected := True, lastKeepAlive := now\<rparr>"
  define s2 where "s2 = (case emit cfg (CONNECTION_OPEN (uri cfg)) s1 of
                     (Some e, s') \<Rightarrow> handleError cfg e s' | (None, s') \<Rightarrow> s')"
  define s3 where "s3 = transmitAll now (pendingMessages s2) s2"
  have 1: "grows s s1"
    unfolding s1_def by (rule grows_field_update)
  have 2: "grows s1 s2"
    unfolding s2_def emit_def
    by (cases "emitter cfg (CONNECTION_OPEN (uri cfg))")
       (simp_all add: grows_effect grows_trans [OF grows_effect grows_handleError])
  have 3: "grows s2 s3"
    unfolding s3_def by (rule grows_transmitAll)
  have 4: "grows s3 ((wakeUp cfg s3)\<lparr>cancelConnect := False\<rparr>)"
    by (rule grows_trans [OF grows_wakeUp grows_field_update(2)])
  have "onSocketConnect cfg now s = (wakeUp cfg s3)\<lparr>cancelConnect := False\<rparr>"
    using False by (simp add: onSocketConnect_def Let_def s1_def s2_def s3_def)
  then show ?thesis
    using grows_trans [OF grows_trans [OF grows_trans [OF 1 2] 3] 4] by simp
qed

lemma grows_pull_loop: "grows s (snd (pull_loop cfg now answers s))"
proof (induction cfg now answers s rule: pull_loop.induct)
  case (1 cfg now answers s)
  show ?case
  proof (cases "int (length (pendingMessages s)) < queueSize cfg")
    case False
    then show ?thesis
      by (subst pull_loop.simps) (simp add: grows_refl)
  next
    case True
    define s1 where "s1 = effect (OnQueueSpace (uri cfg)) s"
    have g1: "grows s s1"
      unfolding s1_def by (rule grows_effect)
    show ?thesis
    proof (cases answers)
      case Nil
      then show ?thesis
        using True g1 by (subst pull_loop.simps) (simp add: s1_def)
    next
      case (Cons a rest)
      show ?thesis
      proof (cases a)
        case NoTask
        then show ?thesis
          using True g1 Cons by (subst pull_loop.simps) (simp add: s1_def)
      next
        case (Flag b)
        have "b \<Longrightarrow> grows s1 (snd (pull_loop cfg now rest s1))"
          using "1.IH"(1) [OF True s1_def Cons Flag] by simp
        then show ?thesis
          using True g1 Cons Flag
          by (subst pull_loop.simps) (auto simp: s1_def [symmetric] intro: grows_trans)
      next
        case (NewTask t)
        have "grows (submitTask now t s1) (snd (pull_loop cfg now rest (submitTask now t s1)))"
          using "1.IH"(2) [OF True s1_def Cons NewTask] by simp
        then have "grows s (snd (pull_loop cfg now rest (submitTask now t s1)))"
          using grows_trans [OF g1 grows_trans [OF grows_submitTask]] by blast
        then show ?thesis
          using True Cons NewTask
          by (subst pull_loop.simps) (simp add: s1_def [symmetric])
      next
        case (Fails e)
        then show ?thesis
          using True g1 Cons by (subst pull_loop.simps) (simp add: s1_def)
      qed
    qed
  qed
qed

lemma grows_doWakeUp: "grows s (snd (doWakeUp cfg now answers s))"
  unfolding doWakeUp_def Let_def
  using grows_trans [OF grows_field_update(3) grows_pull_loop]
  by (simp add: grows_field_update)

lemma grows_try_reject: "grows s (try_reject d err s)"
  by (rule grows_outside) (rule try_reject_outside)

lemma grows_sweep: "grows s (sweep cfg now es s)"
proof (induction es arbitrary: s)
  case Nil
  show ?case by (simp add: grows_refl)
next
  case (Cons e es)
  obtain k m where e: "e = (k, m)" by (cases e)
  show ?case
  proof (cases "startTime m + timeout cfg < now")
    case True
    show ?thesis
      unfolding e
      using True grows_trans [OF grows_trans [OF grows_try_reject grows_removeItem] Cons.IH]
      by simp
  next
    case False
    then show ?thesis
      unfolding e using Cons.IH [of s] by simp
  qed
qed

lemma grows_setupTimer: "grows s (setupTimer cfg now0 s)"
  unfolding setupTimer_def Let_def by (rule grows_field_update)

lemma grows_onTimer: "grows s (onTimer cfg now0 s)"
proof -
  define s1 where "s1 = (if lastKeepAlive s + KEEP_ALIVE_MS < now0 - TIMER_SLACK
                then effect HealthCheck (s\<lparr>lastKeepAlive := now0 - TIMER_SLACK\<rparr>) else s)"
  have 1: "grows s s1"
    unfolding s1_def
    using grows_trans [OF grows_field_update(4) grows_effect] by (simp add: grows_refl)
  have 2: "grows s1 (sweep cfg (now0 - TIMER_SLACK) (pendingMessages s1) s1)"
    by (rule grows_sweep)
  have "onTimer cfg now0 s =
      setupTimer cfg now0 (wakeUp cfg (sweep cfg (now0 - TIMER_SLACK) (pendingMessages s1) s1))"
    by (simp add: onTimer_def Let_def s1_def)
  then show ?thesis
    using grows_trans [OF grows_trans [OF grows_trans [OF 1 2] grows_wakeUp] grows_setupTimer]
    by simp
qed

lemma grows_healthCheckSettled: "grows s (healthCheckSettled cfg now outcome s)"
proof (cases outcome)
  case (Some e)
  then show ?thesis
    by (simp add: healthCheckSettled_def grows_handleError)
next
  case None
  then show ?thesis
    unfolding healthCheckSettled_def emit_def
    by (cases "emitter cfg (CONNECTION_TIMER (uri cfg) now)")
       (simp_all add: grows_effect grows_trans [OF grows_effect grows_handleError])
qed

lemma grows_subscribe: "grows s (subscribe sub s)"
  by (rule grows_same) (simp_all add: subscribe_def effect_def Let_def)

lemma grows_connect: "grows s (connect cfg s)"
  by (rule grows_same) (simp_all add: connect_def effect_def Let_def)

lemma grows_Socket_disconnect: "grows s (Socket_disconnect cfg s)"
  by (rule grows_same) (simp_all add: Socket_disconnect_def disconnect_def effect_def Let_def)

lemma grows_transportState: "grows s (transportState r s)"
  by (rule grows_same) (simp_all add: transportState_def)

lemma grows_onSubscriptionFrame: "grows s (snd (onSubscriptionFrame json k sub s))"
  by (rule grows_same)
     (simp_all add: onSubscriptionFrame_def Let_def resolve_call_eq reject_call_eq effect_def
        split: option.splits sum.splits)

lemma onResponseFrame_hit:
  assumes "map_of (pendingMessages s) k = Some m"
  shows "outside (removeItem k s) (snd (onResponseFrame raw json k s))"
  using assms
  by (simp add: onResponseFrame_def Let_def resolve_or_reject_def resolve_call_eq reject_call_eq
        outside_def split: option.splits sum.splits)

lemma grows_onResponseFrame: "grows s (snd (onResponseFrame raw json k s))"
proof (cases "map_of (pendingMessages s) k")
  case None
  then show ?thesis
    by (simp add: onResponseFrame_def grows_refl)
next
  case (Some m)
  show ?thesis
    using grows_trans [OF grows_removeItem grows_outside [OF onResponseFrame_hit [OF Some]]] .
qed

lemma grows_onMessageBody: "grows s (snd (onMessageBody fr s))"
  by (simp add: onMessageBody_def grows_refl grows_onSubscriptionFrame grows_onResponseFrame
        split: sum.splits option.splits)

lemma grows_onMessage: "grows s (onMessage cfg fr s)"
proof -
  obtain r s1 where b: "onMessageBody fr s = (r, s1)"
    by (cases "onMessageBody fr s")
  have 1: "grows s s1"
    using grows_onMessageBody [of s fr] b by simp
  show ?thesis
  proof (cases r)
    case None
    then show ?thesis
      using grows_trans [OF 1 grows_wakeUp] b by (simp add: onMessage_def)
  next
    case (Some e)
    then show ?thesis
      using grows_trans [OF grows_trans [OF 1 grows_handleError] grows_wakeUp] b
      by (simp add: onMessage_def)
  qed
qed

lemma onError_fields:
  "nextId (onError ev s) = nextId s" "pendingMessages (onError ev s) = pendingMessages s"
  "error (onError ev s) = Some (Error ev)"
  by (simp_all add: onError_def)

lemma grows_step: "\<forall>ev. c \<noteq> OnError ev \<Longrightarrow> grows s (step cfg c s)"
  by (cases c)
     (simp_all add: grows_connect grows_Socket_disconnect grows_submitTask grows_subscribe
        onOpen_def grows_onSocketConnect grows_onMessage grows_onSocketClose grows_onTimer
        grows_doWakeUp grows_healthCheckSettled grows_transportState)

lemma step_nextId: "nextId s \<le> nextId (step cfg c s)"
proof (cases "\<exists>ev. c = OnError ev")
  case True
  then show ?thesis by (auto simp: onError_fields)
next
  case False
  then show ?thesis
    using grows_step [of c s cfg] by (simp add: grows_def)
qed

lemma step_pending_ok: "pending_ok s \<Longrightarrow> pending_ok (step cfg c s)"
proof (cases "\<exists>ev. c = OnError ev")
  case True
  then show "pending_ok s \<Longrightarrow> pending_ok (step cfg c s)"
    by (auto simp: pending_ok_def onError_fields)
next
  case False
  then show "pending_ok s \<Longrightarrow> pending_ok (step cfg c s)"
    using grows_step [of c s cfg] by (simp add: grows_def)
qed

lemma run_nextId: "nextId s \<le> nextId (run cfg cs s)"
proof (induction cs arbitrary: s)
  case Nil
  show ?case by simp
next
  case (Cons c cs)
  show ?case
    using order_trans [OF step_nextId Cons.IH] by simp
qed

lemma run_pending_ok: "pending_ok s \<Longrightarrow> pending_ok (run cfg cs s)"
  by (induction cs arbitrary: s) (simp_all add: step_pending_ok)

lemma pending_ok_makeSocket: "pending_ok (makeSocket cfg now0 h)"
  by (simp add: pending_ok_def makeSocket_def setupTimer_def Let_def)

lemma assign_fresh: "k \<notin> set (map fst kvs) \<Longrightarrow> assign k v kvs = kvs @ [(k, v)]"
  by (induction kvs) auto

lemma set_startTime_other: "k \<notin> set (map fst pm) \<Longrightarrow> set_startTime k now pm = pm"
  by (induction pm) (auto simp: set_startTime_def)

lemma set_startTime_append:
  "set_startTime k now (pm @ qm) = set_startTime k now pm @ set_startTime k now qm"
  by (simp add: set_startTime_def)

lemma submitTask_pending:
  assumes "pending_ok s"
  shows "pendingMessages (submitTask now t s) =
           pendingMessages s @ [(show_nat (nextId s), \<lparr>task = t, startTime = now\<rparr>)]"
proof -
  have f: "show_nat (nextId s) \<notin> set (map fst (pendingMessages s))"
    by (rule fresh_id [OF assms])
  have "set_startTime (show_nat (nextId s)) now
          (pendingMessages s @ [(show_nat (nextId s), \<lparr>task = t, startTime = now\<rparr>)]) =
        pendingMessages s @ [(show_nat (nextId s), \<lparr>task = t, startTime = now\<rparr>)]"
    unfolding set_startTime_append set_startTime_other [OF f]
    by (simp add: set_startTime_def)
  then show ?thesis
    by (simp add: submitTask_def transmitMessage_def effect_def Let_def assign_fresh [OF f])
qed

lemma show_nat_0: "show_nat 0 = ''0''"
  by code_simp

lemma show_nat_1: "show_nat (Suc 0) = ''1''"
  by code_simp

subsection \<open>The wake-up cycle\<close>










subsection \<open>The error memo\<close>

lemma step_error_kept:
  "error s \<noteq> None \<Longrightarrow> \<forall>ev. c \<noteq> OnError ev \<Longrightarrow> error (step cfg c s) = error s"
  using grows_step [of c s cfg] by (simp add: grows_def)

lemma handleError_memo:
  "error (handleError cfg e s) = Some (case error s of None \<Rightarrow> e | Some e0 \<Rightarrow> e0)"
  by (simp add: handleError_fields split: option.splits)

lemma onSocketClose_one_cause:
  "set (map snd (rejects (added s (onSocketClose cfg s))))
     \<subseteq> {Some (case error s of None \<Rightarrow> Error ''Socket close'' | Some e \<Rightarrow> e)}"
  unfolding onSocketClose_rejects by auto

subsection \<open>Frames with an unknown id\<close>





lemma onTimer_removes_expired:
  assumes "map_of (pendingMessages s) k = Some m" "startTime m + timeout cfg < now0 - TIMER_SLACK"
  shows "k \<notin> set (map fst (pendingMessages (onTimer cfg now0 s)))"
proof -
  have "(k, m) \<in> set (pendingMessages s)"
    using assms(1) by (rule map_of_SomeD)
  then have i: "k \<in> set (map fst (filter (\<lambda>(k, m). startTime m + timeout cfg < now0 - TIMER_SLACK)
        (pendingMessages s)))"
    using assms(2) by force
  define S where "S = set (map fst (filter (\<lambda>(k, m). startTime m + timeout cfg < now0 - TIMER_SLACK)
        (pendingMessages s)))"
  have "k' \<notin> S" if "k' \<in> set (map fst (filter (\<lambda>(k, m). k \<notin> S) (pendingMessages s)))" for k'
    using that by auto
  then have "k \<notin> set (map fst (filter (\<lambda>(k, m). k \<notin> S) (pendingMessages s)))"
    using i unfolding S_def [symmetric] by blast
  then show ?thesis
    unfolding onTimer_pending S_def .
qed

lemma onResponseFrame_removes:
  assumes "map_of (pendingMessages s) k = Some m"
  shows "k \<notin> set (map fst (pendingMessages (snd (onResponseFrame raw json k s))))"
  using outside_fields(3) [OF onResponseFrame_hit [OF assms, of raw json]]
  by (auto simp: removeItem_def)

section \<open>The claims\<close>

text \<open>
  C1. When the transport reports closed, \<^verbatim>\<open>reject\<close> is called once for every entry of
  the Pending set, in order, with the memoized error, or with \<^verbatim>\<open>Error('Socket close')\<close>
  if none was recorded; whether some of these calls throw makes no difference to the
  others. Afterwards the Pending set is empty. A Deferred that was unsettled (and whose
  \<^verbatim>\<open>reject\<close> does not throw) is now rejected with that error; one that was settled
  before, or that belongs to no pending entry, is as it was; and a second close calls
  \<^verbatim>\<open>reject\<close> on nothing. A task that was answered, or that timed out, has left the
  Pending set before (last two conjuncts), so the close does not reach it.
\<close>

theorem onSocketClose_rejects_every_pending:
  "rejects (added s (onSocketClose cfg s)) =
     map (\<lambda>(k, m). (WsTask.deferred (task m),
            Some (case error s of None \<Rightarrow> Error ''Socket close'' | Some e \<Rightarrow> e)))
       (pendingMessages s)
   \<and> pendingMessages (onSocketClose cfg s) = []
   \<and> (\<forall>d. heap (onSocketClose cfg s) d =
        (if d \<in> set (map (\<lambda>(k, m). WsTask.deferred (task m)) (pendingMessages s))
            \<and> settled (heap s d) = Unsettled \<and> fault (heap s d) = None
         then (heap s d)\<lparr>settled :=
                Rejected (Some (case error s of None \<Rightarrow> Error ''Socket close'' | Some e \<Rightarrow> e))\<rparr>
         else heap s d))
   \<and> rejects (added (onSocketClose cfg s) (onSocketClose cfg (onSocketClose cfg s))) = []
   \<and> (map_of (pendingMessages s) k = Some m
        \<longrightarrow> k \<notin> set (map fst (pendingMessages (snd (onResponseFrame raw json k s)))))
   \<and> (map_of (pendingMessages s) k = Some m \<and> startTime m + timeout cfg < now0 - TIMER_SLACK
        \<longrightarrow> k \<notin> set (map fst (pendingMessages (onTimer cfg now0 s))))"
proof -
  have "rejects (added (onSocketClose cfg s) (onSocketClose cfg (onSocketClose cfg s))) = []"
    unfolding onSocketClose_rejects by (simp add: onSocketClose_pending)
  then show ?thesis
    using onSocketClose_rejects [of s cfg] onSocketClose_pending [of cfg s] onSocketClose_heap [of cfg s]
      onResponseFrame_removes [of s k m raw json] onTimer_removes_expired [of s k m cfg now0]
    by blast
qed

theorem onSocketClose_rejects_every_pending_witness:
  "rejects (added socket0 (onSocketClose config0 socket0)) =
     [(0, Some (Error ''Socket close'')), (1, Some (Error ''Socket close'')),
      (2, Some (Error ''Socket close''))]
   \<and> pendingMessages (onSocketClose config0 socket0) = []
   \<and> settled (heap (onSocketClose config0 socket0) 0) = Rejected (Some (Error ''Socket close''))
   \<and> settled (heap (onSocketClose config0 socket0) 1) = Unsettled
   \<and> settled (heap (onSocketClose config0 socket0) 2) = Resolved None
   \<and> settled (heap (onSocketClose config0 socket0) 3) = Unsettled
   \<and> ''0'' \<notin> set (map fst (pendingMessages
         (snd (onResponseFrame (messageJson frame0) (JObj [(''id'', JStr ''0''), (''data'', JNum 1)]) ''0'' socket0))))
   \<and> ''0'' \<notin> set (map fst (pendingMessages (onTimer config0 40000 socket0)))"
proof -
  have e: "map_of (pendingMessages socket0) ''0'' = Some \<lparr>task = task0 0, startTime = 0\<rparr>"
    "startTime \<lparr>task = task0 0, startTime = 0\<rparr> + timeout config0 < 40000 - TIMER_SLACK"
    by (simp_all add: socket0_def timeout_def config0_def TIMER_SLACK_def)
  note n = onSocketClose_rejects_every_pending [of socket0 config0 "''0''"
      "\<lparr>task = task0 0, startTime = 0\<rparr>" "messageJson frame0"
      "JObj [(''id'', JStr ''0''), (''data'', JNum 1)]" 40000]
  have 1: "''0'' \<notin> set (map fst (pendingMessages
         (snd (onResponseFrame (messageJson frame0) (JObj [(''id'', JStr ''0''), (''data'', JNum 1)]) ''0'' socket0))))"
    using n e by blast
  have 2: "''0'' \<notin> set (map fst (pendingMessages (onTimer config0 40000 socket0)))"
    using n e by blast
  have 3: "rejects (added socket0 (onSocketClose config0 socket0)) =
     [(0, Some (Error ''Socket close'')), (1, Some (Error ''Socket close'')),
      (2, Some (Error ''Socket close''))]
   \<and> pendingMessages (onSocketClose config0 socket0) = []
   \<and> settled (heap (onSocketClose config0 socket0) 0) = Rejected (Some (Error ''Socket close''))
   \<and> settled (heap (onSocketClose config0 socket0) 1) = Unsettled
   \<and> settled (heap (onSocketClose config0 socket0) 2) = Resolved None
   \<and> settled (heap (onSocketClose config0 socket0) 3) = Unsettled"
    using n by (simp add: socket0_def heap0_def task0_def)
  show ?thesis
    using 1 2 3 by blast
qed


text \<open>
  C3, as the claim states it, fails: \<open>subscribe\<close> on a socket that is not open records
  nothing (and sends nothing), since the assignment to \<^verbatim>\<open>subscriptions[id]\<close> stands
  inside the same \<^verbatim>\<open>if\<close> as the send.
\<close>

theorem subscribe_while_closed_is_dropped:
  "subscriptions (subscribe subX (makeSocket config0 0 heap0)) = []
   \<and> added (makeSocket config0 0 heap0) (subscribe subX (makeSocket config0 0 heap0)) = []"
  by (simp add: subscribe_def makeSocket_def setupTimer_def Let_def added_def)

text \<open>
  C3, amended. If a transport exists, reports \<open>OPEN\<close> and the \<open>connected\<close> flag is set,
  \<open>subscribe\<close> records the subscription under its method name (replacing an earlier one of
  that name, leaving every other entry as it was) and sends exactly one message for it.
  Otherwise \<open>subscribe\<close> changes nothing: the subscription is neither recorded nor sent.
\<close>

theorem subscribe_only_when_open:
  "(socket s \<noteq> None \<and> socket s = Some OPEN \<and> connected s
      \<longrightarrow> map_of (subscriptions (subscribe sub s)) (WsSubscription.method sub) = Some sub
        \<and> (\<forall>k. k \<noteq> WsSubscription.method sub
              \<longrightarrow> map_of (subscriptions (subscribe sub s)) k = map_of (subscriptions s) k)
        \<and> added s (subscribe sub s) =
            [Sent (WsSubscription.method sub) (WsSubscription.method sub)
               (params_or_empty (WsSubscription.params sub))])
   \<and> (\<not> (socket s \<noteq> None \<and> socket s = Some OPEN \<and> connected s) \<longrightarrow> subscribe sub s = s)"
  by (simp add: subscribe_def added_def effect_def map_of_assign Let_def)

theorem subscribe_only_when_open_witness:
  "map_of (subscriptions (subscribe subX socket0)) ''X'' = Some subX
   \<and> added socket0 (subscribe subX socket0) = [Sent ''X'' ''X'' (JObj [])]
   \<and> subscribe subX (makeSocket config0 0 heap0) = makeSocket config0 0 heap0"
proof -
  have o: "socket socket0 \<noteq> None \<and> socket socket0 = Some OPEN \<and> connected socket0"
    and c: "\<not> (socket (makeSocket config0 0 heap0) \<noteq> None \<and> socket (makeSocket config0 0 heap0) = Some OPEN
               \<and> connected (makeSocket config0 0 heap0))"
    and m: "WsSubscription.method subX = ''X''" "params_or_empty (WsSubscription.params subX) = JObj []"
    by (simp_all add: socket0_def makeSocket_def setupTimer_def Let_def subX_def params_or_empty_def)
  show ?thesis
    using subscribe_only_when_open [of socket0 subX] subscribe_only_when_open [of "makeSocket config0 0 heap0" subX]
      o c m
    by simp
qed

text \<open>
  C4, as the claim states it, fails. After \<^verbatim>\<open>handleError\<close> has recorded a first error, an
  error reported through the transport's \<^verbatim>\<open>onError\<close> callback replaces it; and the close
  callback does not clear the memo, so an error handled after a close (the first of the
  next episode) is not recorded.
\<close>

theorem error_memo_replaced_and_kept:
  "error (onError ''second'' (handleError config0 (Error ''first'') (makeSocket config0 0 heap0))) =
     Some (Error ''second'')
   \<and> error (onSocketClose config0 (handleError config0 (Error ''first'') (makeSocket config0 0 heap0))) =
     Some (Error ''first'')
   \<and> error (handleError config0 (Error ''third'')
        (onSocketClose config0 (handleError config0 (Error ''first'') (makeSocket config0 0 heap0)))) =
     Some (Error ''first'')"
  by (simp add: onError_def handleError_fields onSocketClose_fields makeSocket_def setupTimer_def Let_def)

text \<open>
  C4, amended. \<open>handleError\<close> records its error only when the memo is empty, so among
  the errors it is given the first one stays. \<open>onSocketClose\<close> leaves the memo as it is, and
  once an error is recorded no handler changes it, the transport's \<^verbatim>\<open>onError\<close> callback
  apart. All the rejections of one close carry one and the same error.
\<close>

theorem error_memo_first_of_handleError:
  "error (handleError cfg e s) = Some (case error s of None \<Rightarrow> e | Some e0 \<Rightarrow> e0)
   \<and> error (onSocketClose cfg s) = error s
   \<and> (error s \<noteq> None \<and> (\<forall>ev. c \<noteq> OnError ev) \<longrightarrow> error (step cfg c s) = error s)
   \<and> set (map snd (rejects (added s (onSocketClose cfg s))))
        \<subseteq> {Some (case error s of None \<Rightarrow> Error ''Socket close'' | Some e \<Rightarrow> e)}"
  using handleError_memo [of cfg e s] onSocketClose_fields(2) [of cfg s]
    step_error_kept [of s c cfg] onSocketClose_one_cause [of s cfg]
  by blast

theorem error_memo_first_of_handleError_witness:
  "error (step config0 (OnMessage frame0)
       (handleError config0 (Error ''first'') (makeSocket config0 0 heap0))) = Some (Error ''first'')
   \<and> error (handleError config0 (Error ''first'') (makeSocket config0 0 heap0)) = Some (Error ''first'')"
proof -
  note n = error_memo_first_of_handleError [of config0 "Error ''first''" "makeSocket config0 0 heap0"]
  have 1: "error (handleError config0 (Error ''first'') (makeSocket config0 0 heap0)) = Some (Error ''first'')"
    using n by (simp add: makeSocket_def setupTimer_def Let_def)
  have 2: "\<forall>ev. OnMessage frame0 \<noteq> OnError ev"
    by simp
  note m = error_memo_first_of_handleError [where s = "handleError config0 (Error ''first'') (makeSocket config0 0 heap0)"
      and c = "OnMessage frame0" and cfg = config0]
  have "error (step config0 (OnMessage frame0)
       (handleError config0 (Error ''first'') (makeSocket config0 0 heap0))) =
       error (handleError config0 (Error ''first'') (makeSocket config0 0 heap0))"
    using m 1 2 by blast
  then show ?thesis
    using 1 by simp
qed

text \<open>
  C5. In every state a socket can reach from \<open>makeSocket\<close>, \<open>submitTask\<close> stores the task
  under the decimal text of the counter \<open>nextId\<close>, as a new last entry that replaces no
  other, and advances the counter by one; whatever happens afterwards, a later
  \<open>submitTask\<close> is given a different id. The ids in the Pending set are distinct before
  and after, and the id about to be assigned is the id of no pending entry. (The counter
  is a natural number: a JavaScript number counts exactly far beyond any number of tasks
  a socket can be given.)
\<close>

theorem submitTask_ids_never_shared:
  assumes "s = run cfg cs (makeSocket cfg now0 h)"
  shows "pendingMessages (submitTask now t s) =
           pendingMessages s @ [(show_nat (nextId s), \<lparr>task = t, startTime = now\<rparr>)]
   \<and> nextId (submitTask now t s) = Suc (nextId s)
   \<and> show_nat (nextId (run cfg cs' (submitTask now t s))) \<noteq> show_nat (nextId s)
   \<and> distinct (map fst (pendingMessages s))
   \<and> distinct (map fst (pendingMessages (submitTask now t s)))
   \<and> show_nat (nextId s) \<notin> set (map fst (pendingMessages s))"
proof -
  have ok: "pending_ok s"
    unfolding assms by (rule run_pending_ok [OF pending_ok_makeSocket])
  have ok': "pending_ok (submitTask now t s)"
    using grows_submitTask [of s now t] ok by (simp add: grows_def)
  have "nextId s < nextId (run cfg cs' (submitTask now t s))"
    using run_nextId [of "submitTask now t s" cfg cs'] by (simp add: submitTask_fields)
  then have "show_nat (nextId (run cfg cs' (submitTask now t s))) \<noteq> show_nat (nextId s)"
    using show_nat_inj by fastforce
  then show ?thesis
    using submitTask_pending [OF ok] fresh_id [OF ok] ok ok'
    by (simp add: submitTask_fields pending_ok_def)
qed

theorem submitTask_ids_never_shared_witness:
  "map fst (pendingMessages
      (submitTask 2 (task0 1) (run config0 [SubmitTask 1 (task0 0)] (makeSocket config0 0 heap0)))) =
     [''0'', ''1'']
   \<and> nextId (submitTask 2 (task0 1) (run config0 [SubmitTask 1 (task0 0)] (makeSocket config0 0 heap0))) = 2"
proof -
  have p: "pendingMessages (submitTask 1 (task0 0) (makeSocket config0 0 heap0)) =
      [(''0'', \<lparr>task = task0 0, startTime = 1\<rparr>)]"
    and n: "nextId (submitTask 1 (task0 0) (makeSocket config0 0 heap0)) = Suc 0"
    by (simp_all add: submitTask_def transmitMessage_def makeSocket_def setupTimer_def Let_def show_nat_0)
  show ?thesis
    using submitTask_ids_never_shared [OF refl, where now = 2 and t = "task0 1" and cfg = config0
        and cs = "[SubmitTask 1 (task0 0)]" and now0 = 0 and h = heap0 and cs' = "[]"]
    by (simp add: p n show_nat_1)
qed

text \<open>
  C6. \<open>transmitMessage\<close> sends the message if and only if a transport exists, it reports
  \<open>OPEN\<close>, the \<open>connected\<close> flag is set and no cancellation is pending. Otherwise the
  call changes nothing. When the message is sent, the entry of that id gets the start
  time \<open>now\<close> and nothing else in the Pending set changes.
\<close>

theorem transmitMessage_sends_iff_ready:
  "added s (transmitMessage now k pending s) =
     (if socket s \<noteq> None \<and> socket s = Some OPEN \<and> connected s \<and> \<not> cancelConnect s
      then [Sent k (WsTask.method (task pending)) (params_or_empty (WsTask.params (task pending)))]
      else [])
   \<and> (\<not> (socket s \<noteq> None \<and> socket s = Some OPEN \<and> connected s \<and> \<not> cancelConnect s)
        \<longrightarrow> transmitMessage now k pending s = s)
   \<and> (socket s \<noteq> None \<and> socket s = Some OPEN \<and> connected s \<and> \<not> cancelConnect s
        \<longrightarrow> map fst (pendingMessages (transmitMessage now k pending s)) = map fst (pendingMessages s)
          \<and> (\<forall>k'. map_of (pendingMessages (transmitMessage now k pending s)) k' =
               (if k' = k then map_option (\<lambda>m. m\<lparr>startTime := now\<rparr>) (map_of (pendingMessages s) k)
                else map_of (pendingMessages s) k')))"
  by (simp add: transmitMessage_def added_def effect_def map_of_set_startTime keys_set_startTime)

theorem transmitMessage_sends_iff_ready_witness:
  "added socket0 (transmitMessage 7 ''1'' \<lparr>task = task0 1, startTime = 0\<rparr> socket0) =
     [Sent ''1'' ''getInfo'' (JObj [])]
   \<and> map_of (pendingMessages (transmitMessage 7 ''1'' \<lparr>task = task0 1, startTime = 0\<rparr> socket0)) ''1'' =
       Some \<lparr>task = task0 1, startTime = 7\<rparr>
   \<and> map_of (pendingMessages (transmitMessage 7 ''1'' \<lparr>task = task0 1, startTime = 0\<rparr> socket0)) ''0'' =
       Some \<lparr>task = task0 0, startTime = 0\<rparr>
   \<and> transmitMessage 7 ''1'' \<lparr>task = task0 1, startTime = 0\<rparr> (socket0\<lparr>cancelConnect := True\<rparr>) =
       socket0\<lparr>cancelConnect := True\<rparr>"
  using transmitMessage_sends_iff_ready [of socket0 7 "''1''" "\<lparr>task = task0 1, startTime = 0\<rparr>"]
    transmitMessage_sends_iff_ready [of "socket0\<lparr>cancelConnect := True\<rparr>" 7 "''1''" "\<lparr>task = task0 1, startTime = 0\<rparr>"]
  by (simp add: socket0_def task0_def params_or_empty_def)



text \<open>
  C8. On a timer tick, with \<open>now\<close> the clock minus \<open>TIMER_SLACK\<close>, the Pending set
  keeps exactly the entries with \<open>startTime + timeout\<close> not before \<open>now\<close>, unchanged and
  in order; \<^verbatim>\<open>reject\<close> is called with \<^verbatim>\<open>Error('Timeout')\<close> once for every other entry,
  whether or not some of these calls throw; an unsettled Deferred of such an entry is
  rejected with that error, every other Deferred is as it was. (The keys of the Pending
  set are distinct, as the keys of an object are.)
\<close>

theorem onTimer_sweeps_expired:
  assumes "distinct (map fst (pendingMessages s))"
  shows "pendingMessages (onTimer cfg now0 s) =
       filter (\<lambda>(k, m). \<not> startTime m + timeout cfg < now0 - TIMER_SLACK) (pendingMessages s)
   \<and> rejects (added s (onTimer cfg now0 s)) =
       map (\<lambda>(k, m). (WsTask.deferred (task m), Some (Error ''Timeout'')))
         (filter (\<lambda>(k, m). startTime m + timeout cfg < now0 - TIMER_SLACK) (pendingMessages s))
   \<and> (\<forall>d. heap (onTimer cfg now0 s) d =
        (if d \<in> set (map (\<lambda>(k, m). WsTask.deferred (task m))
                       (filter (\<lambda>(k, m). startTime m + timeout cfg < now0 - TIMER_SLACK)
                          (pendingMessages s)))
            \<and> settled (heap s d) = Unsettled \<and> fault (heap s d) = None
         then (heap s d)\<lparr>settled := Rejected (Some (Error ''Timeout''))\<rparr>
         else heap s d))"
proof -
  have "pendingMessages (onTimer cfg now0 s) =
       filter (\<lambda>(k, m). \<not> startTime m + timeout cfg < now0 - TIMER_SLACK) (pendingMessages s)"
    unfolding onTimer_pending
    using distinct_keys_filter [OF assms, of "\<lambda>m. startTime m + timeout cfg < now0 - TIMER_SLACK"]
    by simp
  then show ?thesis
    using onTimer_rejects [of s cfg now0] onTimer_heap [of cfg now0 s] by blast
qed

theorem onTimer_sweeps_expired_witness:
  "pendingMessages (onTimer config0 40000 socket0) = [(''2'', \<lparr>task = task0 2, startTime = 100000\<rparr>)]
   \<and> rejects (added socket0 (onTimer config0 40000 socket0)) =
       [(0, Some (Error ''Timeout'')), (1, Some (Error ''Timeout''))]
   \<and> settled (heap (onTimer config0 40000 socket0) 0) = Rejected (Some (Error ''Timeout''))
   \<and> settled (heap (onTimer config0 40000 socket0) 1) = Unsettled
   \<and> settled (heap (onTimer config0 40000 socket0) 2) = Resolved None"
proof -
  have d: "distinct (map fst (pendingMessages socket0))"
    by (simp add: socket0_def)
  show ?thesis
    using onTimer_sweeps_expired [OF d, of config0 40000]
    by (simp add: socket0_def config0_def timeout_def TIMER_SLACK_def heap0_def task0_def)
qed



text \<open>
  C10, as the claim states it, fails: a URI that already ends in \<^verbatim>\<open>/websocket/websocket\<close>
  is returned as it is, so the result ends in two suffixes, not in exactly one.
\<close>

theorem fullUri_keeps_repeated_suffix:
  "fullUri ''wss://h/websocket/websocket'' = ''wss://h/websocket/websocket''"
  by (simp add: fullUri_def strip_websocket_def suffix_to_prefix)

text \<open>
  C10, amended. The URI \<open>connect\<close> opens always ends in \<^verbatim>\<open>/websocket\<close>. A URI that
  ends in \<^verbatim>\<open>/websocket\<close> is kept as it is, one that ends in \<^verbatim>\<open>/websocket/\<close> loses
  its last slash, any other gets \<^verbatim>\<open>/websocket\<close> appended. Normalising twice is
  normalising once. The result ends in a repeated \<^verbatim>\<open>/websocket/websocket\<close> only if the
  input already ended in one (with or without a slash after it).
\<close>

theorem fullUri_normalised:
  "suffix ''/websocket'' (fullUri u)
   \<and> fullUri u =
       (if suffix ''/websocket'' u then u
        else if suffix ''/websocket/'' u then butlast u
        else u @ ''/websocket'')
   \<and> fullUri (fullUri u) = fullUri u
   \<and> (\<not> suffix ''/websocket/websocket'' u \<and> \<not> suffix ''/websocket/websocket/'' u
        \<longrightarrow> \<not> suffix ''/websocket/websocket'' (fullUri u))"
  using fullUri_suffix [of u] fullUri_of_suffix [of u] fullUri_of_slash [of u]
    fullUri_of_other [of u] fullUri_idem [of u] fullUri_single [of u]
  by presburger

theorem fullUri_normalised_witness:
  "fullUri ''wss://h/websocket/'' = ''wss://h/websocket''
   \<and> \<not> suffix ''/websocket/websocket'' (fullUri ''wss://h/websocket/'')"
proof -
  have a: "\<not> suffix ''/websocket'' ''wss://h/websocket/''"
    and b: "suffix ''/websocket/'' ''wss://h/websocket/''"
    and c: "\<not> suffix ''/websocket/websocket'' ''wss://h/websocket/''"
    and d: "\<not> suffix ''/websocket/websocket/'' ''wss://h/websocket/''"
    by (simp_all add: suffix_to_prefix)
  have e: "butlast ''wss://h/websocket/'' = ''wss://h/websocket''"
    by simp
  note n = fullUri_normalised [of "''wss://h/websocket/''"]
  from n have 1: "fullUri ''wss://h/websocket/'' =
       (if suffix ''/websocket'' ''wss://h/websocket/'' then ''wss://h/websocket/''
        else if suffix ''/websocket/'' ''wss://h/websocket/'' then butlast ''wss://h/websocket/''
        else ''wss://h/websocket/'' @ ''/websocket'')"
    by blast
  from n c d have 2: "\<not> suffix ''/websocket/websocket'' (fullUri ''wss://h/websocket/'')"
    by blast
  from 1 a b e have "fullUri ''wss://h/websocket/'' = ''wss://h/websocket''"
    by simp
  with 2 show ?thesis
    by blast
qed

end
